theory Spec2Isabelle
  imports Complex_Main "HOL-Library.Word" "HOL-Library.Multiset"
begin

section \<open>Dashboard balance aggregation\<close>

text \<open>
  The embedded code is the settlement part of \<open>fetchData\<close> in \<open>DashboardPage\<close>
  (the second document of \<open>src/project/src/pages/SettingsPage.tsx\<close>): the
  \<open>expenses.forEach\<close> pass that fills \<open>memberBalances\<close>, the
  \<open>memberBalances.forEach\<close> pass that builds \<open>settlementsArray\<close>, \<open>totalOwe\<close>
  and \<open>totalOwed\<close>, and the final \<open>sort\<close>.

  Numbers are exact rationals: rounding of IEEE doubles is not modelled. The one
  operation of the code that can leave the finite numbers, the division
  \<open>expense.amount / memberCount\<close>, is modelled with an explicit non-finite result.
\<close>

subsection \<open>Strings and \<open>String.prototype.trim\<close>\<close>

text \<open>A JavaScript string is a sequence of 16-bit code units.\<close>

type_synonym jsstring = "16 word list"

text \<open>An ASCII literal as a JavaScript string.\<close>

definition str :: "string \<Rightarrow> jsstring" where
  "str s = map of_char s"

text \<open>
  The code units that \<open>trim\<close> strips: ECMAScript's WhiteSpace (TAB, VT, FF, SP,
  NBSP, ZWNBSP and the category Zs) and LineTerminator (LF, CR, LS, PS). All of
  them lie in the basic plane, so each is one code unit.
\<close>

definition is_white_space :: "16 word \<Rightarrow> bool" where
  "is_white_space c \<longleftrightarrow>
     c \<in> set [0x0009, 0x000A, 0x000B, 0x000C, 0x000D, 0x0020, 0x00A0, 0x1680,
              0x2000, 0x2001, 0x2002, 0x2003, 0x2004, 0x2005, 0x2006, 0x2007,
              0x2008, 0x2009, 0x200A, 0x2028, 0x2029, 0x202F, 0x205F, 0x3000,
              0xFEFF]"

definition trim :: "jsstring \<Rightarrow> jsstring" where
  "trim s = rev (dropWhile is_white_space (rev (dropWhile is_white_space s)))"

subsection \<open>Data\<close>

datatype split_type = Equal | Custom

text \<open>An element of \<open>split_details\<close>: \<open>{ member: string; amount: number }\<close>.\<close>

record split =
  split_member :: jsstring
  split_amount :: rat

text \<open>
  The fields of \<open>interface Expense\<close> that the aggregation reads; \<open>members\<close> is
  \<open>expense.group.members\<close>, and \<open>split_details = None\<close> is \<open>null\<close>.
\<close>

record expense =
  amount :: rat
  paid_by :: jsstring
  split_type :: split_type
  split_details :: "split list option"
  members :: "jsstring list"
  settled :: bool

datatype settlement_type = Owed | Owing

text \<open>\<open>interface Settlement\<close>.\<close>

record settlement =
  s_name :: jsstring
  s_amount :: rat
  s_type :: settlement_type

text \<open>What \<open>setSettlements\<close>, \<open>setYouOwe\<close> and \<open>setYoureOwed\<close> receive.\<close>

record dashboard =
  settlements :: "settlement list"
  youOwe :: rat
  youreOwed :: rat

subsection \<open>The balance map\<close>

text \<open>
  \<open>memberBalances\<close> is a JavaScript \<open>Map\<close>: it iterates in the order in which
  its keys were first inserted, and \<open>set\<close> on a present key keeps the key's place.
  It is an association list in insertion order.
\<close>

type_synonym balances = "(jsstring \<times> rat) list"

definition map_get :: "balances \<Rightarrow> jsstring \<Rightarrow> rat option" where
  "map_get mb k = map_of mb k"

fun map_set :: "balances \<Rightarrow> jsstring \<Rightarrow> rat \<Rightarrow> balances" where
  "map_set [] k v = [(k, v)]"
| "map_set (p # ps) k v = (if fst p = k then (k, v) # ps else p # map_set ps k v)"

text \<open>\<open>memberBalances.get(k) || 0\<close>: zero for an absent key (and for a stored zero).\<close>

definition get_or_zero :: "balances \<Rightarrow> jsstring \<Rightarrow> rat" where
  "get_or_zero mb k = (case map_get mb k of None \<Rightarrow> 0 | Some v \<Rightarrow> v)"

subsection \<open>The pass over the expenses\<close>

text \<open>
  \<open>expense.amount / memberCount\<close>. JavaScript does not raise on a zero divisor:
  the quotient is \<open>Infinity\<close>, \<open>-Infinity\<close> or \<open>NaN\<close>. \<open>None\<close> is that non-finite
  quotient.
\<close>

definition js_divide :: "rat \<Rightarrow> nat \<Rightarrow> rat option" where
  "js_divide a n = (if n = 0 then None else Some (a / of_nat n))"

text \<open>
  A loop whose body may store a non-finite number: \<open>None\<close> is the run in which
  that happened, so that it can be proved not to happen.
\<close>

fun forEach_option :: "('s \<Rightarrow> 'a \<Rightarrow> 's option) \<Rightarrow> 'a list \<Rightarrow> 's \<Rightarrow> 's option" where
  "forEach_option f [] s = Some s"
| "forEach_option f (x # xs) s =
     (case f s x of None \<Rightarrow> None | Some s' \<Rightarrow> forEach_option f xs s')"

text \<open>
  The callback of \<open>expense.group.members.forEach\<close> in the equal split. A finite
  balance plus or minus a non-finite share is not finite.
\<close>

definition equal_member ::
  "jsstring \<Rightarrow> bool \<Rightarrow> jsstring \<Rightarrow> rat option \<Rightarrow> balances \<Rightarrow> jsstring \<Rightarrow> balances option" where
  "equal_member currentUserIdentifier isPayer paidBy share mb member =
     (if trim member = trim currentUserIdentifier then Some mb
      else
        let currentBalance = get_or_zero mb (trim member) in
        if isPayer then
          (case share of None \<Rightarrow> None
           | Some sh \<Rightarrow> Some (map_set mb (trim member) (currentBalance + sh)))
        else if trim paidBy = trim member then
          (case share of None \<Rightarrow> None
           | Some sh \<Rightarrow> Some (map_set mb (trim member) (currentBalance - sh)))
        else Some mb)"

text \<open>The callback of \<open>split_details.forEach\<close> when the viewer paid.\<close>

definition custom_paid_split :: "jsstring \<Rightarrow> balances \<Rightarrow> split \<Rightarrow> balances" where
  "custom_paid_split currentUserIdentifier mb sp =
     (if trim (split_member sp) \<noteq> trim currentUserIdentifier then
        let memberName = trim (split_member sp);
            currentBalance = get_or_zero mb memberName
        in map_set mb memberName (currentBalance + split_amount sp)
      else mb)"

text \<open>The callback of \<open>split_details.forEach\<close> when somebody else paid.\<close>

definition custom_other_split :: "jsstring \<Rightarrow> jsstring \<Rightarrow> balances \<Rightarrow> split \<Rightarrow> balances" where
  "custom_other_split currentUserIdentifier payerName mb sp =
     (if trim (split_member sp) = trim currentUserIdentifier then
        let currentBalance = get_or_zero mb payerName
        in map_set mb payerName (currentBalance - split_amount sp)
      else mb)"

text \<open>The callback of \<open>expenses.forEach\<close>.\<close>

definition process_expense :: "jsstring \<Rightarrow> balances \<Rightarrow> expense \<Rightarrow> balances option" where
  "process_expense currentUserIdentifier mb e =
     (if settled e then Some mb
      else
        let isPayer = (paid_by e = currentUserIdentifier);
            memberCount = length (members e)
        in
        if split_type e = Equal then
          let share = js_divide (amount e) memberCount
          in forEach_option
               (equal_member currentUserIdentifier isPayer (paid_by e) share) (members e) mb
        else
          (case split_details e of
             None \<Rightarrow> Some mb
           | Some details \<Rightarrow>
               if isPayer then
                 Some (foldl (custom_paid_split currentUserIdentifier) mb details)
               else
                 let payerName = trim (paid_by e)
                 in Some (foldl (custom_other_split currentUserIdentifier payerName) mb details)))"

text \<open>The map after the whole pass, from \<open>new Map()\<close>.\<close>

definition memberBalances :: "jsstring \<Rightarrow> expense list \<Rightarrow> balances option" where
  "memberBalances currentUserIdentifier expenses =
     forEach_option (process_expense currentUserIdentifier) expenses []"

subsection \<open>Settlements and totals\<close>

text \<open>
  The callback of \<open>memberBalances.forEach\<close>; the state is
  \<open>(settlementsArray, totalOwe, totalOwed)\<close>.
\<close>

definition balance_entry ::
  "settlement list \<times> rat \<times> rat \<Rightarrow> jsstring \<times> rat \<Rightarrow> settlement list \<times> rat \<times> rat" where
  "balance_entry st kv =
     (case st of (settlementsArray, totalOwe, totalOwed) \<Rightarrow>
      case kv of (name, amt) \<Rightarrow>
        if amt \<noteq> 0 then
          (settlementsArray @
             [\<lparr>s_name = name, s_amount = \<bar>amt\<bar>,
               s_type = (if amt > 0 then Owed else Owing)\<rparr>],
           (if amt > 0 then totalOwe else totalOwe + \<bar>amt\<bar>),
           (if amt > 0 then totalOwed + amt else totalOwed))
        else st)"

text \<open>The comparator \<open>(a, b) => b.amount - a.amount\<close>.\<close>

definition compareFn :: "settlement \<Rightarrow> settlement \<Rightarrow> rat" where
  "compareFn a b = s_amount b - s_amount a"

text \<open>
  \<open>Array.prototype.sort\<close> is stable, and with a consistent comparator its result
  is determined: the elements in comparator order, equal ones in their former
  order. A stable insertion sort computes it.
\<close>

fun sort_insert :: "settlement \<Rightarrow> settlement list \<Rightarrow> settlement list" where
  "sort_insert x [] = [x]"
| "sort_insert x (y # ys) =
     (if compareFn x y \<le> 0 then x # y # ys else y # sort_insert x ys)"

definition array_sort :: "settlement list \<Rightarrow> settlement list" where
  "array_sort xs = foldr sort_insert xs []"

definition summarise :: "balances \<Rightarrow> dashboard" where
  "summarise mb =
     (case foldl balance_entry ([], 0, 0) mb of
        (settlementsArray, totalOwe, totalOwed) \<Rightarrow>
          \<lparr>settlements = array_sort settlementsArray,
            youOwe = totalOwe, youreOwed = totalOwed\<rparr>)"

text \<open>The settlement output of \<open>fetchData\<close> for a viewer and the fetched expenses.\<close>

definition fetchData :: "jsstring \<Rightarrow> expense list \<Rightarrow> dashboard option" where
  "fetchData currentUserIdentifier expenses =
     map_option summarise (memberBalances currentUserIdentifier expenses)"

section \<open>Properties\<close>

subsection \<open>\<open>trim\<close> is idempotent\<close>

lemma last_dropWhile_keep: "dropWhile P xs \<noteq> [] \<Longrightarrow> last (dropWhile P xs) = last xs"
  by (induction xs) (auto split: if_splits)

lemma dropWhile_fixed: "xs = [] \<or> \<not> P (hd xs) \<Longrightarrow> dropWhile P xs = xs"
  by (cases xs) auto

lemma trim_idem: "trim (trim s) = trim s"
proof -
  define t where "t = dropWhile is_white_space s"
  define u where "u = dropWhile is_white_space (rev t)"
  have front: "t = [] \<or> \<not> is_white_space (hd t)"
    unfolding t_def using hd_dropWhile [of is_white_space s] by blast
  have tail_ok: "u = [] \<or> \<not> is_white_space (hd u)"
    unfolding u_def using hd_dropWhile [of is_white_space "rev t"] by blast
  have "rev u = [] \<or> \<not> is_white_space (hd (rev u))"
  proof (cases "u = []")
    case True
    then show ?thesis by simp
  next
    case False
    then have "last u = last (rev t)"
      unfolding u_def by (rule last_dropWhile_keep)
    moreover from False have "t \<noteq> []" unfolding u_def by auto
    ultimately have "last u = hd t" by (simp add: last_rev)
    with front \<open>t \<noteq> []\<close> False show ?thesis by (simp add: hd_rev)
  qed
  then have "dropWhile is_white_space (rev u) = rev u"
    by (rule dropWhile_fixed)
  moreover have "dropWhile is_white_space u = u"
    using tail_ok by (rule dropWhile_fixed)
  ultimately show ?thesis
    by (simp add: trim_def t_def [symmetric] u_def [symmetric])
qed

subsection \<open>The balance map\<close>



lemma keys_map_set: "set (map fst (map_set mb k v)) = insert k (set (map fst mb))"
  by (induction mb) auto

lemma distinct_map_set: "distinct (map fst mb) \<Longrightarrow> distinct (map fst (map_set mb k v))"
  by (induction mb) (auto simp: keys_map_set [simplified])

subsection \<open>The equal split and the totality of the pass\<close>







lemma equal_member_total: "\<exists>mb'. equal_member v p pb (Some sh) mb x = Some mb'"
  by (simp add: equal_member_def Let_def)

lemma equal_loop_total:
  "\<exists>mb'. forEach_option (equal_member v p pb (Some sh)) xs mb = Some mb'"
proof (induction xs arbitrary: mb)
  case Nil
  then show ?case by simp
next
  case (Cons x xs)
  obtain mb1 where "equal_member v p pb (Some sh) mb x = Some mb1"
    using equal_member_total by blast
  with Cons.IH [of mb1] show ?case by simp
qed

lemma process_expense_total: "\<exists>mb'. process_expense v mb e = Some mb'"
proof (cases "members e = []")
  case True
  then show ?thesis
    by (simp add: process_expense_def Let_def split: option.split)
next
  case False
  then have "js_divide (amount e) (length (members e)) =
      Some (amount e / of_nat (length (members e)))"
    by (simp add: js_divide_def)
  then show ?thesis
    using equal_loop_total [of v "paid_by e = v" "paid_by e" _ "members e" mb]
    by (simp add: process_expense_def Let_def split: option.split)
qed

lemma forEach_option_total:
  "(\<And>s x. \<exists>s'. f s x = Some s') \<Longrightarrow> \<exists>s'. forEach_option f xs s = Some s'"
proof (induction xs arbitrary: s)
  case Nil
  then show ?case by simp
next
  case (Cons x xs)
  from Cons.prems obtain s1 where "f s x = Some s1" by blast
  with Cons.IH [of s1] Cons.prems show ?case by simp
qed

lemma memberBalances_total: "\<exists>mb. memberBalances v es = Some mb"
  unfolding memberBalances_def
  by (rule forEach_option_total) (rule process_expense_total)

lemma forEach_option_append:
  "forEach_option f (xs @ ys) s =
     (case forEach_option f xs s of None \<Rightarrow> None | Some s' \<Rightarrow> forEach_option f ys s')"
  by (induction xs arbitrary: s) (auto split: option.split)

subsection \<open>Expenses that leave the map as it is\<close>

lemma process_expense_empty_group:
  "split_type e = Equal \<Longrightarrow> members e = [] \<Longrightarrow> process_expense v mb e = Some mb"
  by (simp add: process_expense_def)

lemma process_expense_settled: "settled e \<Longrightarrow> process_expense v mb e = Some mb"
  by (simp add: process_expense_def)

lemma pass_drop_idle:
  "(\<And>mb. process_expense v mb e = Some mb) \<Longrightarrow>
     forEach_option (process_expense v) (es1 @ e # es2) mb =
     forEach_option (process_expense v) (es1 @ es2) mb"
  by (simp add: forEach_option_append split: option.split)

lemma pass_filter_settled:
  "forEach_option (process_expense v) (filter (\<lambda>e. \<not> settled e) es) mb =
     forEach_option (process_expense v) es mb"
proof (induction es arbitrary: mb)
  case Nil
  then show ?case by simp
next
  case (Cons e es)
  show ?case
  proof (cases "settled e")
    case True
    then show ?thesis by (simp add: process_expense_settled Cons.IH)
  next
    case False
    then show ?thesis by (simp add: Cons.IH split: option.split)
  qed
qed

lemma fetchData_total: "\<exists>d. fetchData v es = Some d"
  using memberBalances_total [of v es] by (auto simp: fetchData_def)

subsection \<open>The custom split\<close>











subsection \<open>The equal split of one expense\<close>



subsection \<open>The sort and the pass over the balances\<close>

lemma sort_insert_insort:
  "sort_insert x ys = insort_key (\<lambda>s. - s_amount s) x ys"
  by (induction ys) (simp_all add: compareFn_def)

lemma array_sort_sort_key: "array_sort xs = sort_key (\<lambda>s. - s_amount s) xs"
proof -
  have "sort_insert = insort_key (\<lambda>s. - s_amount s)"
    by (intro ext) (rule sort_insert_insort)
  then show ?thesis by (simp add: array_sort_def sort_key_def)
qed

lemma array_sort_mset: "mset (array_sort xs) = mset xs"
  by (simp add: array_sort_sort_key)

lemma array_sort_set: "set (array_sort xs) = set xs"
  by (simp add: array_sort_sort_key)

lemma array_sort_descending:
  "sorted_wrt (\<lambda>a b. s_amount b \<le> s_amount a) (array_sort xs)"
proof -
  have "sorted (map (\<lambda>s. - s_amount s) (array_sort xs))"
    by (simp add: array_sort_sort_key)
  then show ?thesis by (simp add: sorted_map)
qed

lemma array_sort_stable:
  "filter (\<lambda>s. s_amount s = a) (array_sort xs) = filter (\<lambda>s. s_amount s = a) xs"
proof -
  have "filter (\<lambda>s. - s_amount s = - a) (sort_key (\<lambda>s. - s_amount s) xs) =
        filter (\<lambda>s. - s_amount s = - a) xs"
    by (rule sort_key_stable)
  then show ?thesis by (simp add: array_sort_sort_key)
qed

lemma array_sort_names: "distinct (map s_name xs) \<Longrightarrow> distinct (map s_name (array_sort xs))"
proof -
  assume d: "distinct (map s_name xs)"
  have "mset (map s_name (array_sort xs)) = mset (map s_name xs)"
    by (simp add: array_sort_mset)
  with d show ?thesis by (metis mset_eq_imp_distinct_iff)
qed

lemma balance_entry_step:
  "balance_entry (arr, owe, owed) (name, amt) =
     (if amt = 0 then (arr, owe, owed)
      else if amt > 0
        then (arr @ [\<lparr>s_name = name, s_amount = \<bar>amt\<bar>, s_type = Owed\<rparr>], owe, owed + amt)
        else (arr @ [\<lparr>s_name = name, s_amount = \<bar>amt\<bar>, s_type = Owing\<rparr>],
              owe + \<bar>amt\<bar>, owed))"
  by (simp add: balance_entry_def)

lemma balance_pass:
  "foldl balance_entry (arr, owe, owed) mb =
     (arr @ map (\<lambda>(name, amt). \<lparr>s_name = name, s_amount = \<bar>amt\<bar>,
                     s_type = (if amt > 0 then Owed else Owing)\<rparr>)
              (filter (\<lambda>(name, amt). amt \<noteq> 0) mb),
      owe + sum_list (map abs (filter (\<lambda>amt. amt < 0) (map snd mb))),
      owed + sum_list (filter (\<lambda>amt. amt > 0) (map snd mb)))"
proof (induction mb arbitrary: arr owe owed)
  case Nil
  then show ?case by simp
next
  case (Cons kv mb)
  obtain name amt where kv: "kv = (name, amt)" by (cases kv)
  show ?case
    by (cases "amt = 0"; cases "amt > 0") (simp_all add: kv balance_entry_step Cons.IH)
qed

lemma summarise_eq:
  "summarise mb =
     \<lparr>settlements = array_sort
         (map (\<lambda>(name, amt). \<lparr>s_name = name, s_amount = \<bar>amt\<bar>,
                     s_type = (if amt > 0 then Owed else Owing)\<rparr>)
              (filter (\<lambda>(name, amt). amt \<noteq> 0) mb)),
      youOwe = sum_list (map abs (filter (\<lambda>amt. amt < 0) (map snd mb))),
      youreOwed = sum_list (filter (\<lambda>amt. amt > 0) (map snd mb))\<rparr>"
  by (simp add: summarise_def balance_pass)

lemma settlement_names:
  "map s_name
     (map (\<lambda>(name, amt). \<lparr>s_name = name, s_amount = \<bar>amt\<bar>,
                     s_type = (if amt > 0 then Owed else Owing)\<rparr>) xs) = map fst xs"
  by (induction xs) auto

lemma at_most_one_trimmed:
  assumes "distinct ks" and "\<forall>k\<in>set ks. trim k = k"
  shows "length (filter (\<lambda>k. trim k = t) ks) \<le> 1"
proof -
  have "filter (\<lambda>k. trim k = t) ks = filter (\<lambda>k. k = t) ks"
    using assms(2) by (intro filter_cong) auto
  moreover have "length (filter (\<lambda>k. k = t) ks) \<le> 1"
    using assms(1) by (induction ks) (auto simp: filter_empty_conv)
  ultimately show ?thesis by simp
qed

subsection \<open>Invariants of the keys\<close>

lemma forEach_option_invariant:
  assumes "\<And>s x s'. P s \<Longrightarrow> x \<in> set xs \<Longrightarrow> f s x = Some s' \<Longrightarrow> P s'"
    and "P s" and "forEach_option f xs s = Some s'"
  shows "P s'"
  using assms
proof (induction xs arbitrary: s)
  case Nil
  then show ?case by simp
next
  case (Cons x xs)
  from Cons.prems(3) obtain s1 where first: "f s x = Some s1"
    and rest: "forEach_option f xs s1 = Some s'"
    by (auto split: option.splits)
  have "P s1"
    using Cons.prems(1) [of s x s1] Cons.prems(2) first by simp
  moreover have "P t'" if "P t" and "y \<in> set xs" and "f t y = Some t'" for t y t'
    using Cons.prems(1) [of t y t'] that by simp
  ultimately show ?case using rest Cons.IH [of s1] by blast
qed

lemma foldl_invariant:
  assumes "\<And>s x. P s \<Longrightarrow> P (f s x)" and "P s"
  shows "P (foldl f s xs)"
  using assms(2) by (induction xs arbitrary: s) (simp_all add: assms(1))

text \<open>
  Every key that one expense writes is trimmed, and it differs from the viewer's
  trimmed name unless it is the trimmed name of a payer who is not the viewer.
\<close>

lemma process_expense_invariant:
  assumes step: "\<And>mb k a. P mb \<Longrightarrow> trim k = k \<Longrightarrow>
        k \<noteq> trim v \<or> (paid_by e \<noteq> v \<and> k = trim (paid_by e)) \<Longrightarrow> P (map_set mb k a)"
    and start: "P mb" and run: "process_expense v mb e = Some mb'"
  shows "P mb'"
proof -
  have equal: "P m'" if "P m" and "equal_member v p pb share m x = Some m'"
    for m m' p pb share x
    using that step [of m "trim x"]
    by (auto simp: equal_member_def Let_def trim_idem split: if_splits option.splits)
  have paid: "P (custom_paid_split v m sp)" if "P m" for m sp
    using that step [of m "trim (split_member sp)"]
    by (simp add: custom_paid_split_def Let_def trim_idem)
  have other: "P (custom_other_split v (trim (paid_by e)) m sp)"
    if "P m" and "paid_by e \<noteq> v" for m sp
    using that step [of m "trim (paid_by e)"]
    by (simp add: custom_other_split_def Let_def trim_idem)
  show ?thesis
  proof (cases "settled e")
    case True
    with run start show ?thesis by (simp add: process_expense_def)
  next
    case live: False
    show ?thesis
    proof (cases "split_type e = Equal")
      case True
      with live run have "forEach_option
          (equal_member v (paid_by e = v) (paid_by e)
             (js_divide (amount e) (length (members e)))) (members e) mb = Some mb'"
        by (simp add: process_expense_def)
      with start show ?thesis
        by (rule forEach_option_invariant [where P = P, rotated 1]) (rule equal)
    next
      case False
      show ?thesis
      proof (cases "split_details e")
        case None
        with live False run start show ?thesis by (simp add: process_expense_def)
      next
        case (Some ds)
        show ?thesis
        proof (cases "paid_by e = v")
          case True
          with live False Some run
          have "mb' = foldl (custom_paid_split v) mb ds"
            by (simp add: process_expense_def)
          then show ?thesis using start paid by (simp add: foldl_invariant)
        next
          case notme: False
          with live False Some run
          have "mb' = foldl (custom_other_split v (trim (paid_by e))) mb ds"
            by (simp add: process_expense_def)
          then show ?thesis using start other [OF _ notme] by (simp add: foldl_invariant)
        qed
      qed
    qed
  qed
qed

lemma memberBalances_invariant:
  assumes step: "\<And>mb k a. P mb \<Longrightarrow> trim k = k \<Longrightarrow>
        k \<noteq> trim v \<or> (\<exists>e\<in>set es. paid_by e \<noteq> v \<and> k = trim (paid_by e)) \<Longrightarrow>
        P (map_set mb k a)"
    and start: "P []" and run: "memberBalances v es = Some mb"
  shows "P mb"
proof -
  have "P m'" if "P m" and "e \<in> set es" and "process_expense v m e = Some m'" for m m' e
  proof (rule process_expense_invariant [where P = P, OF _ that(1) that(3)])
    fix mb k a
    assume "P mb" and "trim k = k" and "k \<noteq> trim v \<or> (paid_by e \<noteq> v \<and> k = trim (paid_by e))"
    with that(2) show "P (map_set mb k a)" by (intro step) auto
  qed
  with start run show ?thesis
    unfolding memberBalances_def by (rule forEach_option_invariant [where P = P, rotated 1])
qed

lemma memberBalances_distinct:
  "memberBalances v es = Some mb \<Longrightarrow> distinct (map fst mb)"
  by (rule memberBalances_invariant [where P = "\<lambda>m. distinct (map fst m)"])
     (simp_all add: distinct_map_set)

lemma memberBalances_trimmed:
  "memberBalances v es = Some mb \<Longrightarrow> \<forall>k\<in>set (map fst mb). trim k = k"
  by (rule memberBalances_invariant [where P = "\<lambda>m. \<forall>k\<in>set (map fst m). trim k = k"])
     (simp_all add: keys_map_set del: set_map)

text \<open>
  The viewer's trimmed name is no key as long as no payer differs from the viewer
  by surrounding white space only.
\<close>

lemma memberBalances_viewer_absent:
  assumes "\<forall>e\<in>set es. trim (paid_by e) = trim v \<longrightarrow> paid_by e = v"
    and "memberBalances v es = Some mb"
  shows "trim v \<notin> set (map fst mb)"
proof (rule memberBalances_invariant
    [where P = "\<lambda>m. trim v \<notin> set (map fst m)", OF _ _ assms(2)])
  fix m :: balances and k a
  assume "trim v \<notin> set (map fst m)"
    and "k \<noteq> trim v \<or> (\<exists>e\<in>set es. paid_by e \<noteq> v \<and> k = trim (paid_by e))"
  moreover from this(2) assms(1) have "k \<noteq> trim v" by auto
  ultimately show "trim v \<notin> set (map fst (map_set m k a))"
    by (simp add: keys_map_set del: set_map)
qed simp

subsection \<open>Evaluation at concrete inputs\<close>

lemmas run_simps = process_expense_def equal_member_def custom_paid_split_def
  custom_other_split_def js_divide_def get_or_zero_def map_get_def trim_def str_def
  is_white_space_def memberBalances_def fetchData_def summarise_def balance_entry_def
  array_sort_def compareFn_def Let_def

section \<open>The claims\<close>











text \<open>
  C8. An equal-split expense whose \<open>members\<close> list is empty is skipped: the
  quotient \<open>amount / 0\<close> is not finite, but the loop over the members has no
  iteration, so the balance map is returned as it was; the map, the totals and the
  settlement list of a whole pass are those of the pass without that expense,
  and the pass returns a result.
\<close>

theorem C8_empty_group_is_skipped:
  assumes "split_type e = Equal" and "members e = []"
  shows "js_divide (amount e) (length (members e)) = None \<and>
         process_expense viewer mb e = Some mb \<and>
         memberBalances viewer (es1 @ e # es2) = memberBalances viewer (es1 @ es2) \<and>
         fetchData viewer (es1 @ e # es2) = fetchData viewer (es1 @ es2) \<and>
         (\<exists>d. fetchData viewer (es1 @ e # es2) = Some d)"
proof -
  have idle: "process_expense viewer mb' e = Some mb'" for mb'
    using assms by (rule process_expense_empty_group)
  have same: "memberBalances viewer (es1 @ e # es2) = memberBalances viewer (es1 @ es2)"
    unfolding memberBalances_def using idle by (rule pass_drop_idle)
  show ?thesis
    using assms idle same fetchData_total [of viewer "es1 @ e # es2"]
    by (simp add: js_divide_def fetchData_def)
qed

theorem C8_empty_group_is_skipped_witness:
  "fetchData (str ''Alice'')
     [\<lparr>amount = 30, paid_by = str ''Alice'', split_type = Equal, split_details = None,
       members = [], settled = False\<rparr>,
      \<lparr>amount = 30, paid_by = str ''Alice'', split_type = Equal, split_details = None,
       members = [str ''Alice'', str ''Bob'', str ''Carol''], settled = False\<rparr>]
   = fetchData (str ''Alice'')
     [\<lparr>amount = 30, paid_by = str ''Alice'', split_type = Equal, split_details = None,
       members = [str ''Alice'', str ''Bob'', str ''Carol''], settled = False\<rparr>]"
  using C8_empty_group_is_skipped
    [of "\<lparr>amount = 30, paid_by = str ''Alice'', split_type = Equal, split_details = None,
       members = [], settled = False\<rparr>" "str ''Alice''" "[]" "[]"
       "[\<lparr>amount = 30, paid_by = str ''Alice'', split_type = Equal, split_details = None,
       members = [str ''Alice'', str ''Bob'', str ''Carol''], settled = False\<rparr>]"]
  by simp

text \<open>
  C6. The output on a list of expenses is the output on its sublist of expenses
  that are not settled: the balance map, the two totals and the settlement list
  agree, and both passes return a result.
\<close>

theorem C6_settled_expenses_are_ignored:
  "memberBalances viewer es = memberBalances viewer (filter (\<lambda>e. \<not> settled e) es) \<and>
   fetchData viewer es = fetchData viewer (filter (\<lambda>e. \<not> settled e) es) \<and>
   (\<exists>d. fetchData viewer es = Some d)"
  using fetchData_total [of viewer es]
  by (simp add: fetchData_def memberBalances_def pass_filter_settled)


text \<open>
  C5. The settlement list holds exactly the entries \<open>(name, |balance|, direction)\<close>
  of the balance-map entries with a balance other than zero, one per key: it is
  a permutation of them, its names are pairwise distinct and every amount is
  positive. It is sorted by amount in descending order, and the entries of any
  one amount are in the order in which the balance map holds them.
\<close>

theorem C5_settlement_list:
  "\<exists>mb d. memberBalances viewer es = Some mb \<and> fetchData viewer es = Some d \<and>
     distinct (map fst mb) \<and>
     mset (settlements d) =
       mset (map (\<lambda>(name, amt). \<lparr>s_name = name, s_amount = \<bar>amt\<bar>,
                       s_type = (if amt > 0 then Owed else Owing)\<rparr>)
              (filter (\<lambda>(name, amt). amt \<noteq> 0) mb)) \<and>
     distinct (map s_name (settlements d)) \<and>
     (\<forall>s\<in>set (settlements d). s_amount s > 0) \<and>
     sorted_wrt (\<lambda>a b. s_amount b \<le> s_amount a) (settlements d) \<and>
     (\<forall>a. filter (\<lambda>s. s_amount s = a) (settlements d) =
          filter (\<lambda>s. s_amount s = a)
            (map (\<lambda>(name, amt). \<lparr>s_name = name, s_amount = \<bar>amt\<bar>,
                       s_type = (if amt > 0 then Owed else Owing)\<rparr>)
              (filter (\<lambda>(name, amt). amt \<noteq> 0) mb)))"
proof -
  define entries where "entries mb =
      map (\<lambda>(name, amt). \<lparr>s_name = name, s_amount = \<bar>amt\<bar>,
                       s_type = (if amt > 0 then Owed else Owing)\<rparr>)
          (filter (\<lambda>(name, amt). amt \<noteq> 0) mb)" for mb :: balances
  obtain mb where run: "memberBalances viewer es = Some mb"
    using memberBalances_total by blast
  then have out: "fetchData viewer es = Some (summarise mb)"
    by (simp add: fetchData_def)
  have sorted_entries: "settlements (summarise mb) = array_sort (entries mb)"
    by (simp add: summarise_eq entries_def)
  have keys: "distinct (map fst mb)"
    using run by (rule memberBalances_distinct)
  then have "distinct (map s_name (entries mb))"
    unfolding entries_def settlement_names by (rule distinct_map_filter)
  then have names: "distinct (map s_name (settlements (summarise mb)))"
    unfolding sorted_entries by (rule array_sort_names)
  have positive: "\<forall>s\<in>set (settlements (summarise mb)). s_amount s > 0"
    unfolding sorted_entries array_sort_set by (auto simp: entries_def)
  have "mset (settlements (summarise mb)) = mset (entries mb)"
    unfolding sorted_entries by (rule array_sort_mset)
  moreover have "sorted_wrt (\<lambda>a b. s_amount b \<le> s_amount a) (settlements (summarise mb))"
    unfolding sorted_entries by (rule array_sort_descending)
  moreover have "\<forall>a. filter (\<lambda>s. s_amount s = a) (settlements (summarise mb)) =
      filter (\<lambda>s. s_amount s = a) (entries mb)"
    unfolding sorted_entries by (simp add: array_sort_stable)
  ultimately show ?thesis
    using run out keys names positive unfolding entries_def by blast
qed

theorem C5_settlement_list_witness:
  "fetchData (str ''Alice'')
     [\<lparr>amount = 30, paid_by = str ''Alice'', split_type = Equal, split_details = None,
       members = [str ''Alice'', str ''Bob'', str ''Carol''], settled = False\<rparr>,
      \<lparr>amount = 50, paid_by = str ''Dave'', split_type = Custom,
       split_details = Some [\<lparr>split_member = str ''Alice'', split_amount = 20\<rparr>,
                             \<lparr>split_member = str ''Dave'', split_amount = 30\<rparr>],
       members = [str ''Alice'', str ''Dave''], settled = False\<rparr>,
      \<lparr>amount = 30, paid_by = str ''Bob'', split_type = Equal, split_details = None,
       members = [str ''Alice'', str ''Bob'', str ''Carol''], settled = False\<rparr>,
      \<lparr>amount = 10, paid_by = str ''Alice'', split_type = Custom,
       split_details = Some [\<lparr>split_member = str ''Erin'', split_amount = 10\<rparr>],
       members = [str ''Alice'', str ''Erin''], settled = False\<rparr>]
   = Some \<lparr>settlements =
              [\<lparr>s_name = str ''Dave'', s_amount = 20, s_type = Owing\<rparr>,
               \<lparr>s_name = str ''Carol'', s_amount = 10, s_type = Owed\<rparr>,
               \<lparr>s_name = str ''Erin'', s_amount = 10, s_type = Owed\<rparr>],
            youOwe = 20, youreOwed = 20\<rparr>"
  using C5_settlement_list [of "str ''Alice''"
     "[\<lparr>amount = 30, paid_by = str ''Alice'', split_type = Equal, split_details = None,
       members = [str ''Alice'', str ''Bob'', str ''Carol''], settled = False\<rparr>,
      \<lparr>amount = 50, paid_by = str ''Dave'', split_type = Custom,
       split_details = Some [\<lparr>split_member = str ''Alice'', split_amount = 20\<rparr>,
                             \<lparr>split_member = str ''Dave'', split_amount = 30\<rparr>],
       members = [str ''Alice'', str ''Dave''], settled = False\<rparr>,
      \<lparr>amount = 30, paid_by = str ''Bob'', split_type = Equal, split_details = None,
       members = [str ''Alice'', str ''Bob'', str ''Carol''], settled = False\<rparr>,
      \<lparr>amount = 10, paid_by = str ''Alice'', split_type = Custom,
       split_details = Some [\<lparr>split_member = str ''Erin'', split_amount = 10\<rparr>],
       members = [str ''Alice'', str ''Erin''], settled = False\<rparr>]"]
  by (simp add: run_simps)

text \<open>
  C9 at a failing input. The viewer is \<open>Alice\<close>; the payer is \<open>Alice\<close> followed by a
  space, so \<open>isPayer\<close> is false, and the custom split has an entry of that member,
  whose trimmed name is the viewer's. The balance map gets the viewer's own name
  as a key, and the settlement list says that Alice owes Alice 20.
\<close>

theorem C9_viewer_key_recorded:
  "paid_by \<lparr>amount = 50, paid_by = str ''Alice '', split_type = Custom,
       split_details = Some [\<lparr>split_member = str ''Alice '', split_amount = 20\<rparr>,
                             \<lparr>split_member = str ''Bob'', split_amount = 30\<rparr>],
       members = [str ''Alice '', str ''Bob''], settled = False\<rparr> \<noteq> str ''Alice'' \<and>
   memberBalances (str ''Alice'')
     [\<lparr>amount = 50, paid_by = str ''Alice '', split_type = Custom,
       split_details = Some [\<lparr>split_member = str ''Alice '', split_amount = 20\<rparr>,
                             \<lparr>split_member = str ''Bob'', split_amount = 30\<rparr>],
       members = [str ''Alice '', str ''Bob''], settled = False\<rparr>]
     = Some [(str ''Alice'', - 20)] \<and>
   fetchData (str ''Alice'')
     [\<lparr>amount = 50, paid_by = str ''Alice '', split_type = Custom,
       split_details = Some [\<lparr>split_member = str ''Alice '', split_amount = 20\<rparr>,
                             \<lparr>split_member = str ''Bob'', split_amount = 30\<rparr>],
       members = [str ''Alice '', str ''Bob''], settled = False\<rparr>]
     = Some \<lparr>settlements = [\<lparr>s_name = str ''Alice'', s_amount = 20, s_type = Owing\<rparr>],
              youOwe = 20, youreOwed = 0\<rparr>"
  by (simp add: run_simps)

text \<open>
  C10. Every key of the balance map after the pass is its own \<open>trim\<close>, and the
  keys are pairwise distinct, so at most one key belongs to all the names that
  have one trimmed form; the same holds for the names of the settlement list.
\<close>

theorem C10_keys_are_trimmed:
  "\<exists>mb d. memberBalances viewer es = Some mb \<and> fetchData viewer es = Some d \<and>
     (\<forall>k\<in>set (map fst mb). trim k = k) \<and>
     distinct (map fst mb) \<and>
     (\<forall>name. length (filter (\<lambda>k. trim k = trim name) (map fst mb)) \<le> 1) \<and>
     (\<forall>s\<in>set (settlements d). trim (s_name s) = s_name s) \<and>
     distinct (map s_name (settlements d)) \<and>
     (\<forall>name. length (filter (\<lambda>k. trim k = trim name) (map s_name (settlements d))) \<le> 1)"
proof -
  obtain mb where run: "memberBalances viewer es = Some mb"
    using memberBalances_total by blast
  then have out: "fetchData viewer es = Some (summarise mb)"
    by (simp add: fetchData_def)
  have keys: "distinct (map fst mb)"
    using run by (rule memberBalances_distinct)
  have trimmed: "\<forall>k\<in>set (map fst mb). trim k = k"
    using run by (rule memberBalances_trimmed)
  have one: "\<forall>name. length (filter (\<lambda>k. trim k = trim name) (map fst mb)) \<le> 1"
    using at_most_one_trimmed [OF keys trimmed] by blast
  let ?entries = "map (\<lambda>(name, amt). \<lparr>s_name = name, s_amount = \<bar>amt\<bar>,
                       s_type = (if amt > 0 then Owed else Owing)\<rparr>)
          (filter (\<lambda>(name, amt). amt \<noteq> 0) mb)"
  have sorted_entries: "settlements (summarise mb) = array_sort ?entries"
    by (simp add: summarise_eq)
  have "distinct (map s_name ?entries)"
    unfolding settlement_names using keys by (rule distinct_map_filter)
  then have names: "distinct (map s_name (settlements (summarise mb)))"
    unfolding sorted_entries by (rule array_sort_names)
  have "set (map s_name (settlements (summarise mb))) \<subseteq> set (map fst mb)"
    unfolding sorted_entries by (force simp: array_sort_set)
  with trimmed have names_trimmed:
    "\<forall>k\<in>set (map s_name (settlements (summarise mb))). trim k = k"
    by blast
  then have names_trimmed': "\<forall>s\<in>set (settlements (summarise mb)). trim (s_name s) = s_name s"
    by simp
  have names_one: "\<forall>name. length (filter (\<lambda>k. trim k = trim name)
      (map s_name (settlements (summarise mb)))) \<le> 1"
    using at_most_one_trimmed [OF names names_trimmed] by blast
  from run out keys trimmed one names names_trimmed' names_one show ?thesis
    by blast
qed

theorem C10_keys_are_trimmed_witness:
  "memberBalances (str ''Alice'')
     [\<lparr>amount = 40, paid_by = str ''Alice'', split_type = Equal, split_details = None,
       members = [str ''Alice'', str ''Bob'', str '' Bob'', str ''Bob  ''], settled = False\<rparr>,
      \<lparr>amount = 7, paid_by = str '' Bob '', split_type = Custom,
       split_details = Some [\<lparr>split_member = str ''Alice '', split_amount = 7\<rparr>],
       members = [str ''Alice'', str ''Bob''], settled = False\<rparr>]
     = Some [(str ''Bob'', 23)] \<and>
   map_option settlements (fetchData (str ''Alice'')
     [\<lparr>amount = 40, paid_by = str ''Alice'', split_type = Equal, split_details = None,
       members = [str ''Alice'', str ''Bob'', str '' Bob'', str ''Bob  ''], settled = False\<rparr>,
      \<lparr>amount = 7, paid_by = str '' Bob '', split_type = Custom,
       split_details = Some [\<lparr>split_member = str ''Alice '', split_amount = 7\<rparr>],
       members = [str ''Alice'', str ''Bob''], settled = False\<rparr>])
     = Some [\<lparr>s_name = str ''Bob'', s_amount = 23, s_type = Owed\<rparr>]"
  using C10_keys_are_trimmed [of "str ''Alice''"
     "[\<lparr>amount = 40, paid_by = str ''Alice'', split_type = Equal, split_details = None,
       members = [str ''Alice'', str ''Bob'', str '' Bob'', str ''Bob  ''], settled = False\<rparr>,
      \<lparr>amount = 7, paid_by = str '' Bob '', split_type = Custom,
       split_details = Some [\<lparr>split_member = str ''Alice '', split_amount = 7\<rparr>],
       members = [str ''Alice'', str ''Bob''], settled = False\<rparr>]"]
  by (simp add: run_simps)

end
